theory Spec2Isabelle
  imports Main "HOL-Library.Multiset"
begin

section \<open>Strings as the bot uses them\<close>

text \<open>
  The bot is a Python program; its strings are modelled as \<^typ>\<open>string\<close>, read as
  sequences of ASCII code points. \<open>str.strip()\<close> removes the ASCII white space of
  Python (code points 9 to 13 and 28 to 32) from both ends, \<open>str.upper()\<close> and
  \<open>str.lower()\<close> map the letters a to z and A to Z and leave every other character alone.
  Characters beyond ASCII are outside the model.
\<close>

definition is_space :: "char \<Rightarrow> bool" where
  "is_space c = (let n = (of_char c :: nat) in (9 \<le> n \<and> n \<le> 13) \<or> (28 \<le> n \<and> n \<le> 32))"

definition upper_ch :: "char \<Rightarrow> char" where
  "upper_ch c = (let n = (of_char c :: nat) in if 97 \<le> n \<and> n \<le> 122 then char_of (n - 32) else c)"

definition lower_ch :: "char \<Rightarrow> char" where
  "lower_ch c = (let n = (of_char c :: nat) in if 65 \<le> n \<and> n \<le> 90 then char_of (n + 32) else c)"

definition strip :: "string \<Rightarrow> string" where
  "strip s = rev (dropWhile is_space (rev (dropWhile is_space s)))"

definition upper :: "string \<Rightarrow> string" where
  "upper s = map upper_ch s"

definition lower :: "string \<Rightarrow> string" where
  "lower s = map lower_ch s"

definition startswith :: "string \<Rightarrow> string \<Rightarrow> bool" where
  "startswith s p = (take (length p) s = p)"

text \<open>The normal form of a term: \<open>term.strip().upper()\<close>.\<close>

definition normalize_term :: "string \<Rightarrow> string" where
  "normalize_term s = upper (strip s)"

text \<open>
  \<open>s.split(None, n)\<close>: split at runs of white space, at most \<open>n\<close> times; leading
  white space is skipped, and once \<open>n\<close> splits are made the rest is one last part.
\<close>

fun split_ws :: "nat \<Rightarrow> string \<Rightarrow> string list" where
  "split_ws 0 s = (let t = dropWhile is_space s in if t = [] then [] else [t])"
| "split_ws (Suc n) s =
     (let t = dropWhile is_space s in
      if t = [] then []
      else takeWhile (\<lambda>c. \<not> is_space c) t # split_ws n (dropWhile (\<lambda>c. \<not> is_space c) t))"

text \<open>\<open>"\n".join(lines)\<close>.\<close>

fun join_lines :: "string list \<Rightarrow> string" where
  "join_lines [] = []"
| "join_lines [l] = l"
| "join_lines (l # m # ls) = l @ [CHR 0x0A] @ join_lines (m # ls)"

subsection \<open>Decimal numbers\<close>

text \<open>\<open>str(n)\<close> of a Python integer, and \<open>int(s)\<close> of a string.\<close>

definition digit_char :: "nat \<Rightarrow> char" where
  "digit_char d = char_of (48 + d)"

fun digits :: "nat \<Rightarrow> string" where
  "digits n = (if n < 10 then [digit_char n] else digits (n div 10) @ [digit_char (n mod 10)])"

declare digits.simps [simp del]

definition str_int :: "int \<Rightarrow> string" where
  "str_int i = (if i < 0 then CHR ''-'' # digits (nat (- i)) else digits (nat i))"

definition is_digit :: "char \<Rightarrow> bool" where
  "is_digit c = (let n = (of_char c :: nat) in 48 \<le> n \<and> n \<le> 57)"

definition digit_val :: "char \<Rightarrow> nat" where
  "digit_val c = of_char c - 48"

definition digits_value :: "string \<Rightarrow> nat" where
  "digits_value cs = foldl (\<lambda>a c. 10 * a + digit_val c) 0 cs"

definition unsigned_literal :: "string \<Rightarrow> int option" where
  "unsigned_literal cs =
     (if cs \<noteq> [] \<and> list_all is_digit cs then Some (int (digits_value cs)) else None)"

definition signed_literal :: "string \<Rightarrow> int option" where
  "signed_literal t =
     (case t of
        [] \<Rightarrow> None
      | c # cs \<Rightarrow>
          if c = CHR ''-'' then map_option uminus (unsigned_literal cs)
          else if c = CHR ''+'' then unsigned_literal cs
          else unsigned_literal t)"

text \<open>
  Python's \<open>int\<close> accepts single underscores between digits; \<open>drop_underscores\<close>
  removes them, or fails where one is misplaced. The flag says whether the character
  before was a digit.
\<close>

fun drop_underscores :: "bool \<Rightarrow> string \<Rightarrow> string option" where
  "drop_underscores d [] = Some []"
| "drop_underscores d (c # cs) =
     (if c = CHR ''_'' then
        (case cs of
           [] \<Rightarrow> None
         | c' # _ \<Rightarrow> if d \<and> is_digit c' then drop_underscores False cs else None)
      else map_option ((#) c) (drop_underscores (is_digit c) cs))"

datatype error = ValueError

definition py_int :: "string \<Rightarrow> error + int" where
  "py_int s =
     (case drop_underscores False (strip s) of
        None \<Rightarrow> Inl ValueError
      | Some t \<Rightarrow> (case signed_literal t of None \<Rightarrow> Inl ValueError | Some i \<Rightarrow> Inr i))"

section \<open>The store: one SQLite table\<close>

text \<open>
  The table \<open>acronyms (id INTEGER PRIMARY KEY AUTOINCREMENT, term, expansion, created_at)\<close>
  of \<open>init_db\<close>. A row is a record; the table is the list of its rows together with the
  counter SQLite keeps for an AUTOINCREMENT key (the largest id it has given out).
  Python's integers are unbounded, so ids and time stamps are \<^typ>\<open>int\<close>.
\<close>

record row =
  row_id :: int
  row_term :: string
  expansion :: string
  created_at :: int

record store =
  rows :: "row list"
  seq :: int

definition init_db :: store where
  "init_db = \<lparr>rows = [], seq = 0\<rparr>"

text \<open>
  The id of an inserted row: with AUTOINCREMENT it is one more than the largest id the
  table holds or has ever given out.
\<close>

definition next_id :: "store \<Rightarrow> int" where
  "next_id s = fold max (map row_id (rows s)) (seq s) + 1"

text \<open>\<open>INSERT INTO acronyms (term, expansion, created_at) VALUES (?, ?, ?)\<close>\<close>

definition sql_insert :: "store \<Rightarrow> string \<Rightarrow> string \<Rightarrow> int \<Rightarrow> store" where
  "sql_insert s tm e now =
     (let i = next_id s in
      s\<lparr>rows := rows s @ [\<lparr>row_id = i, row_term = tm, expansion = e, created_at = now\<rparr>],
        seq := i\<rparr>)"

text \<open>\<open>SELECT ... FROM acronyms WHERE term = ? ORDER BY id ASC\<close>\<close>

definition sql_select_term :: "store \<Rightarrow> string \<Rightarrow> row list" where
  "sql_select_term s tm = sort_key row_id (filter (\<lambda>r. row_term r = tm) (rows s))"

text \<open>\<open>DELETE FROM acronyms WHERE id = ?\<close>, the parameter an integer.\<close>

definition sql_delete :: "store \<Rightarrow> int \<Rightarrow> store" where
  "sql_delete s i = s\<lparr>rows := filter (\<lambda>r. row_id r \<noteq> i) (rows s)\<rparr>"

text \<open>
  Where the parameter compared with \<open>id\<close> is a string (the edit and the select handlers
  pass the text before the bar of a token), SQLite first converts a text that is a
  well-formed number. The model converts integer literals (an optional sign and decimal
  digits), which is what a token carries; any other text matches no row here.
\<close>

definition id_eq_text :: "int \<Rightarrow> string \<Rightarrow> bool" where
  "id_eq_text i aid = (signed_literal aid = Some i)"

text \<open>\<open>UPDATE acronyms SET expansion = ? WHERE id = ?\<close>, the id a string.\<close>

definition sql_update :: "store \<Rightarrow> string \<Rightarrow> string \<Rightarrow> store" where
  "sql_update s new_exp aid =
     s\<lparr>rows := map (\<lambda>r. if id_eq_text (row_id r) aid then r\<lparr>expansion := new_exp\<rparr> else r) (rows s)\<rparr>"

text \<open>\<open>SELECT expansion FROM acronyms WHERE id = ?\<close> and \<open>fetchone()\<close>, the id a string.\<close>

definition fetch_expansion :: "store \<Rightarrow> string \<Rightarrow> string option" where
  "fetch_expansion s aid =
     (case filter (\<lambda>r. id_eq_text (row_id r) aid) (rows s) of
        [] \<Rightarrow> None
      | r # _ \<Rightarrow> Some (expansion r))"

subsection \<open>The helpers of \<open>app.py\<close>\<close>

text \<open>
  \<open>add_acronym\<close> takes the clock reading \<open>int(time.time())\<close> as the argument
  \<open>now\<close>. It has no \<open>raise\<close> and its early \<open>return\<close> leaves the table alone, so the
  model returns the store.
\<close>

definition add_acronym :: "store \<Rightarrow> string \<Rightarrow> string \<Rightarrow> int \<Rightarrow> store" where
  "add_acronym s tm e now =
     (let term_clean = upper (strip tm); expansion_clean = strip e in
      if term_clean = [] \<or> expansion_clean = [] then s
      else sql_insert s term_clean expansion_clean now)"

definition get_acronyms :: "store \<Rightarrow> string \<Rightarrow> string list" where
  "get_acronyms s tm = (let term_clean = upper (strip tm) in map expansion (sql_select_term s term_clean))"

definition get_acronym_ids_and_expansions :: "store \<Rightarrow> string \<Rightarrow> (int \<times> string) list" where
  "get_acronym_ids_and_expansions s tm =
     (let term_clean = upper (strip tm) in
      map (\<lambda>r. (row_id r, expansion r)) (sql_select_term s term_clean))"

definition delete_acronym_by_id :: "store \<Rightarrow> int \<Rightarrow> store" where
  "delete_acronym_by_id s acronym_id = sql_delete s acronym_id"

text \<open>
  The loop of \<open>format_defs\<close> over \<open>enumerate(expansions, 1)\<close>, appending one line each
  time round.
\<close>

fun numbered_lines :: "int \<Rightarrow> string list \<Rightarrow> string list \<Rightarrow> string list" where
  "numbered_lines idx [] lines = lines"
| "numbered_lines idx (e # es) lines = numbered_lines (idx + 1) es (lines @ [str_int idx @ ''. '' @ e])"

definition format_defs :: "string \<Rightarrow> string list \<Rightarrow> string" where
  "format_defs tm expansions =
     (let term_clean = upper (strip tm) in
      if expansions = [] then ''Nothing for *'' @ term_clean @ ''* yet. Try `/wtf add` to submit one.''
      else join_lines (numbered_lines 1 expansions
             [''*'' @ term_clean @ ''* has '' @ str_int (int (length expansions)) @ '' meaning(s):'']))"

section \<open>The handlers\<close>

text \<open>
  What a handler sends to the chat platform is a value: a text or a list of blocks for
  \<open>respond\<close>, with its \<open>response_type\<close>, a replacement of the message the button was on
  (\<open>replace_original=True\<close>), or a dialog for \<open>client.views_open\<close>. Of a dialog the model
  keeps the callback, the \<open>private_metadata\<close> and the text its input starts with; of a
  button its action and the value it carries. Fixed titles and labels are left out.
\<close>

datatype response_type = Ephemeral | In_channel

record button =
  action_id :: string
  button_value :: string

datatype block = Section string | Section_button string button | Actions "button list"

record view =
  callback_id :: string
  private_metadata :: string
  initial_value :: "string option"

datatype effect =
    Respond string response_type
  | Respond_blocks "block list" response_type
  | Replace string
  | Replace_blocks "block list"
  | Views_open string view

record command =
  cmd_text :: "string option"
  trigger_id :: string
  channel_id :: "string option"

text \<open>The token on a button: \<open>f"{acronym_id}|{term}"\<close>.\<close>

definition encode_token :: "int \<Rightarrow> string \<Rightarrow> string" where
  "encode_token acronym_id tm = str_int acronym_id @ ''|'' @ tm"

text \<open>
  \<open>aid, term = value.split("|", 1)\<close>: the split at the first bar; with no bar there is
  one part only and the assignment raises ValueError.
\<close>

definition split_token :: "string \<Rightarrow> error + (string \<times> string)" where
  "split_token v =
     (if CHR ''|'' \<in> set v
      then Inr (takeWhile (\<lambda>c. c \<noteq> CHR ''|'') v, tl (dropWhile (\<lambda>c. c \<noteq> CHR ''|'') v))
      else Inl ValueError)"

text \<open>
  The listing of the \<open>delete\<close> and \<open>edit\<close> branches: a heading, one section with a
  button per row from the loop over \<open>enumerate(rows, 1)\<close>, and the cancel button.
\<close>

fun row_blocks :: "string \<Rightarrow> string \<Rightarrow> int \<Rightarrow> (int \<times> string) list \<Rightarrow> block list \<Rightarrow> block list" where
  "row_blocks act tm idx [] blocks = blocks"
| "row_blocks act tm idx ((acronym_id, e) # rs) blocks =
     row_blocks act tm (idx + 1) rs
       (blocks @ [Section_button (str_int idx @ ''. '' @ e)
                    \<lparr>action_id = act, button_value = encode_token acronym_id tm\<rparr>])"

definition listing :: "string \<Rightarrow> string \<Rightarrow> string \<Rightarrow> string \<Rightarrow> (int \<times> string) list \<Rightarrow> block list" where
  "listing verb act cancel tm rs =
     row_blocks act tm 1 rs
       [Section (''*'' @ upper tm @ ''* has '' @ str_int (int (length rs))
                 @ '' meaning(s). Which one do you want to '' @ verb @ ''?'')]
     @ [Actions [\<lparr>action_id = cancel, button_value = tm\<rparr>]]"

text \<open>The \<open>delete\<close> and \<open>edit\<close> branches of the command differ in their words only.\<close>

definition subcommand :: "store \<Rightarrow> string \<Rightarrow> string \<Rightarrow> string \<Rightarrow> string \<Rightarrow> effect" where
  "subcommand s txt verb act cancel =
     (let parts = split_ws 2 txt in
      if length parts < 2 then Respond (''Usage: `/wtf '' @ verb @ '' [acronym]`'') Ephemeral
      else
        let tm = parts ! 1; rs = get_acronym_ids_and_expansions s tm in
        if rs = [] then Respond (''No definitions found for *'' @ upper tm @ ''*.'') Ephemeral
        else Respond_blocks (listing verb act cancel tm rs) Ephemeral)"

text \<open>\<open>(command.get("text") or "").strip()\<close>\<close>

definition command_text :: "command \<Rightarrow> string" where
  "command_text command = strip (case cmd_text command of None \<Rightarrow> [] | Some t \<Rightarrow> t)"

text \<open>The slash command \<open>/wtf\<close>. It reads the table and writes nothing to it.\<close>

definition handle_acronym :: "store \<Rightarrow> command \<Rightarrow> effect" where
  "handle_acronym s command =
     (let txt = command_text command in
      if txt = [] then Respond ''Usage: `/wtf ATO` or `/wtf add`'' Ephemeral
      else if startswith (lower txt) ''add'' then
        (let parts = split_ws 2 txt;
             prefill_term = (if length parts > 1 then upper (parts ! 1) else [])
         in Views_open (trigger_id command)
              \<lparr>callback_id = ''add_acronym'',
               private_metadata = (case channel_id command of None \<Rightarrow> [] | Some c \<Rightarrow> c),
               initial_value = (if prefill_term \<noteq> [] then Some prefill_term else None)\<rparr>)
      else if startswith (lower txt) ''delete'' then
        subcommand s txt ''delete'' ''delete_acronym_select'' ''delete_acronym_cancel''
      else if startswith (lower txt) ''edit'' then
        subcommand s txt ''edit'' ''edit_acronym_select'' ''edit_acronym_cancel''
      else
        (let expansions = get_acronyms s txt in
         Respond (format_defs txt expansions) (if expansions = [] then Ephemeral else In_channel)))"

text \<open>The button handlers; each starts by splitting the token.\<close>

definition handle_edit_select :: "store \<Rightarrow> string \<Rightarrow> string \<Rightarrow> error + effect" where
  "handle_edit_select s trigger v =
     (case split_token v of
        Inl err \<Rightarrow> Inl err
      | Inr (aid, tm) \<Rightarrow>
          let ex = (case fetch_expansion s aid of None \<Rightarrow> [] | Some x \<Rightarrow> x) in
          Inr (Views_open trigger
                 \<lparr>callback_id = ''edit_acronym_modal'',
                  private_metadata = aid @ ''|'' @ tm,
                  initial_value = Some ex\<rparr>))"

definition handle_delete_select :: "store \<Rightarrow> string \<Rightarrow> error + effect" where
  "handle_delete_select s v =
     (case split_token v of
        Inl err \<Rightarrow> Inl err
      | Inr (aid, tm) \<Rightarrow>
          let ex = (case fetch_expansion s aid of None \<Rightarrow> ''(definition not found)'' | Some x \<Rightarrow> x) in
          Inr (Replace_blocks
                 [Section (''Are you sure you want to delete this definition for *'' @ upper tm
                           @ ''*?'' @ [CHR 0x0A] @ ''> '' @ ex),
                  Actions [\<lparr>action_id = ''delete_acronym_confirm'', button_value = aid @ ''|'' @ tm\<rparr>,
                           \<lparr>action_id = ''delete_acronym_cancel'', button_value = tm\<rparr>]]))"

definition handle_delete_confirm :: "store \<Rightarrow> string \<Rightarrow> error + (store \<times> effect)" where
  "handle_delete_confirm s v =
     (case split_token v of
        Inl err \<Rightarrow> Inl err
      | Inr (aid, tm) \<Rightarrow>
          (case py_int aid of
             Inl err \<Rightarrow> Inl err
           | Inr i \<Rightarrow>
               Inr (delete_acronym_by_id s i,
                    Replace (''Deleted one definition for *'' @ upper tm @ ''*.''))))"

text \<open>
  The two dialog submissions. The notices they post afterwards sit in
  \<open>try\<close>/\<open>except\<close> and do not touch the table; the model gives the table they leave.
\<close>

definition handle_edit_view :: "store \<Rightarrow> string \<Rightarrow> string \<Rightarrow> error + store" where
  "handle_edit_view s meta v =
     (case split_token meta of
        Inl err \<Rightarrow> Inl err
      | Inr (aid, tm) \<Rightarrow>
          let new_exp = strip v in
          if new_exp \<noteq> [] then Inr (sql_update s new_exp aid) else Inr s)"

definition handle_add_view :: "store \<Rightarrow> string \<Rightarrow> string \<Rightarrow> int \<Rightarrow> store" where
  "handle_add_view s tv ev now =
     (let tm = strip tv; e = strip ev in
      if tm \<noteq> [] \<and> e \<noteq> [] then add_acronym s tm e now else s)"

text \<open>
  The invariant of the table: ids are a key, a stored term is upper case and is not
  blank, and a stored expansion is not blank.
\<close>

definition store_inv :: "store \<Rightarrow> bool" where
  "store_inv s =
     (distinct (map row_id (rows s))
      \<and> (\<forall>r\<in>set (rows s).
            row_term r = upper (row_term r) \<and> strip (row_term r) \<noteq> [] \<and> strip (expansion r) \<noteq> []))"

text \<open>A table with three rows, for the worked examples.\<close>

definition example_store :: store where
  "example_store =
     \<lparr>rows = [\<lparr>row_id = 1, row_term = ''X'', expansion = ''A'', created_at = 10\<rparr>,
              \<lparr>row_id = 2, row_term = ''X'', expansion = ''B'', created_at = 20\<rparr>,
              \<lparr>row_id = 4, row_term = ''ATO'', expansion = ''Authority to Operate'', created_at = 30\<rparr>],
      seq = 5\<rparr>"

text \<open>A table where the term \<open>EDITOR\<close> has a row.\<close>

definition editor_store :: store where
  "editor_store =
     \<lparr>rows = [\<lparr>row_id = 1, row_term = ''EDITOR'', expansion = ''A program for changing text'',
               created_at = 10\<rparr>],
      seq = 1\<rparr>"

section \<open>Facts about strings\<close>

lemma upper_ch_idem: "upper_ch (upper_ch c) = upper_ch c"
  by (auto simp: upper_ch_def Let_def)

lemma is_space_upper_ch: "is_space (upper_ch c) = is_space c"
  by (auto simp: upper_ch_def is_space_def Let_def)

lemma upper_idem: "upper (upper s) = upper s"
  by (simp add: upper_def upper_ch_idem)

lemma dropWhile_space_upper:
  "dropWhile is_space (map upper_ch s) = map upper_ch (dropWhile is_space s)"
  by (induction s) (auto simp: is_space_upper_ch)

lemma strip_upper: "strip (upper s) = upper (strip s)"
  by (simp add: strip_def upper_def dropWhile_space_upper rev_map)

lemma last_dropWhile_keep: "dropWhile P xs \<noteq> [] \<Longrightarrow> last (dropWhile P xs) = last xs"
  by (induction xs) (auto split: if_splits)

lemma strip_ends:
  assumes "strip s \<noteq> []"
  shows "\<not> is_space (hd (strip s))" and "\<not> is_space (last (strip s))"
proof -
  let ?u = "dropWhile is_space s"
  let ?w = "dropWhile is_space (rev ?u)"
  from assms have w: "?w \<noteq> []" by (simp add: strip_def)
  have u: "?u \<noteq> []"
  proof
    assume "?u = []"
    then have "?w = []" by (simp only: rev.simps dropWhile.simps)
    with w show False by simp
  qed
  have "hd (strip s) = last ?w" using w by (simp add: strip_def hd_rev)
  also have "\<dots> = last (rev ?u)" using w by (rule last_dropWhile_keep)
  also have "\<dots> = hd ?u" using u by (simp add: last_rev)
  finally show "\<not> is_space (hd (strip s))" using u hd_dropWhile[of is_space s] by simp
  have "last (strip s) = hd ?w" using w by (simp add: strip_def last_rev)
  then show "\<not> is_space (last (strip s))" using w hd_dropWhile[of is_space "rev ?u"] by simp
qed

lemma strip_fixed:
  assumes "t = [] \<or> (\<not> is_space (hd t) \<and> \<not> is_space (last t))"
  shows "strip t = t"
proof (cases "t = []")
  case True
  then show ?thesis by (simp add: strip_def)
next
  case False
  with assms have h: "\<not> is_space (hd t)" and l: "\<not> is_space (last t)" by auto
  from False h have 1: "dropWhile is_space t = t" by (cases t) auto
  from False l have 2: "dropWhile is_space (rev t) = rev t"
    by (cases "rev t") (auto simp: last_rev[symmetric] hd_rev)
  show ?thesis by (simp add: strip_def 1 2)
qed

lemma strip_idem: "strip (strip s) = strip s"
  using strip_ends[of s] by (intro strip_fixed) blast

lemma normalize_idem: "normalize_term (normalize_term s) = normalize_term s"
  by (simp add: normalize_term_def strip_upper strip_idem upper_idem)

lemma strip_Nil_iff: "strip s = [] \<longleftrightarrow> (\<forall>c\<in>set s. is_space c)"
proof
  assume "strip s = []"
  then have a: "\<forall>x\<in>set (dropWhile is_space s). is_space x"
    by (simp add: strip_def dropWhile_eq_Nil_conv)
  have "dropWhile is_space s = []"
  proof (rule ccontr)
    assume n: "dropWhile is_space s \<noteq> []"
    then have "\<not> is_space (hd (dropWhile is_space s))" by (simp add: hd_dropWhile)
    moreover from n have "hd (dropWhile is_space s) \<in> set (dropWhile is_space s)" by simp
    ultimately show False using a by blast
  qed
  then show "\<forall>c\<in>set s. is_space c" by (simp add: dropWhile_eq_Nil_conv)
next
  assume "\<forall>c\<in>set s. is_space c"
  then have "dropWhile is_space s = []" by (simp add: dropWhile_eq_Nil_conv)
  then show "strip s = []" by (simp only: strip_def rev.simps dropWhile.simps)
qed

lemma upper_Nil_iff: "upper s = [] \<longleftrightarrow> s = []"
  by (simp add: upper_def)

section \<open>Facts about the table\<close>

lemma fold_max_ge: "(a::int) \<le> fold max xs a"
proof (induction xs arbitrary: a)
  case Nil
  show ?case by simp
next
  case (Cons x xs)
  have "a \<le> max x a" by simp
  also have "\<dots> \<le> fold max xs (max x a)" by (rule Cons.IH)
  finally show ?case by simp
qed

lemma fold_max_mem: "x \<in> set xs \<Longrightarrow> (x::int) \<le> fold max xs a"
proof (induction xs arbitrary: a)
  case Nil
  then show ?case by simp
next
  case (Cons y ys)
  show ?case
  proof (cases "x = y")
    case True
    have "x \<le> max y a" using True by simp
    also have "\<dots> \<le> fold max ys (max y a)" by (rule fold_max_ge)
    finally show ?thesis by simp
  next
    case False
    with Cons.prems have "x \<in> set ys" by simp
    then show ?thesis using Cons.IH by simp
  qed
qed

lemma next_id_gt: "r \<in> set (rows s) \<Longrightarrow> row_id r < next_id s"
  using fold_max_mem[of "row_id r" "map row_id (rows s)" "seq s"]
  by (simp add: next_id_def)

lemma next_id_gt_seq: "seq s < next_id s"
  using fold_max_ge[of "seq s" "map row_id (rows s)"] by (simp add: next_id_def)

lemma next_id_fresh: "next_id s \<notin> row_id ` set (rows s)"
  using next_id_gt by fastforce

lemma insort_key_snoc:
  "\<forall>y\<in>set ys. f y \<le> f x \<Longrightarrow> f a \<le> f x \<Longrightarrow> insort_key f a (ys @ [x]) = insort_key f a ys @ [x]"
  for f :: "'a \<Rightarrow> int"
  by (induction ys) auto

lemma foldr_insort_snoc:
  "\<forall>y\<in>set xs. f y \<le> f x \<Longrightarrow> foldr (insort_key f) xs [x] = foldr (insort_key f) xs [] @ [x]"
  for f :: "'a \<Rightarrow> int"
proof (induction xs)
  case Nil
  show ?case by simp
next
  case (Cons a xs)
  then have ih: "foldr (insort_key f) xs [x] = foldr (insort_key f) xs [] @ [x]" by simp
  have "\<forall>y\<in>set (foldr (insort_key f) xs []). f y \<le> f x"
    using Cons.prems by (simp add: sort_key_def[symmetric])
  then show ?case using Cons.prems by (simp add: ih insort_key_snoc)
qed

lemma sort_key_snoc:
  "\<forall>y\<in>set xs. f y \<le> f x \<Longrightarrow> sort_key f (xs @ [x]) = sort_key f xs @ [x]"
  for f :: "'a \<Rightarrow> int"
  by (simp add: sort_key_def foldr_insort_snoc)

lemma select_insert:
  "sql_select_term (sql_insert s tm e now) tm' =
     (if tm' = tm
      then sql_select_term s tm' @ [\<lparr>row_id = next_id s, row_term = tm, expansion = e, created_at = now\<rparr>]
      else sql_select_term s tm')"
proof (cases "tm' = tm")
  case True
  let ?r = "\<lparr>row_id = next_id s, row_term = tm, expansion = e, created_at = now\<rparr>"
  let ?old = "filter (\<lambda>r. row_term r = tm) (rows s)"
  have "\<forall>y\<in>set ?old. row_id y \<le> row_id ?r"
    using next_id_gt[of _ s] by fastforce
  then have "sort_key row_id (?old @ [?r]) = sort_key row_id ?old @ [?r]"
    by (rule sort_key_snoc)
  moreover have "filter (\<lambda>r. row_term r = tm) (rows (sql_insert s tm e now)) = ?old @ [?r]"
    by (simp add: sql_insert_def Let_def)
  ultimately show ?thesis using True by (simp add: sql_select_term_def)
next
  case False
  then show ?thesis by (simp add: sql_select_term_def sql_insert_def Let_def)
qed

lemma select_delete:
  "sql_select_term (sql_delete s i) tm = filter (\<lambda>r. row_id r \<noteq> i) (sql_select_term s tm)"
  by (simp add: sql_select_term_def sql_delete_def filter_sort conj_commute)

lemma get_acronyms_add:
  assumes "strip tm \<noteq> []" "strip e \<noteq> []"
  shows "get_acronyms (add_acronym s tm e now) q =
           (if normalize_term q = normalize_term tm then get_acronyms s q @ [strip e] else get_acronyms s q)"
  using assms
  by (simp add: get_acronyms_def add_acronym_def normalize_term_def upper_Nil_iff select_insert Let_def)

lemma get_ids_add:
  assumes "strip tm \<noteq> []" "strip e \<noteq> []"
  shows "get_acronym_ids_and_expansions (add_acronym s tm e now) q =
           (if normalize_term q = normalize_term tm
            then get_acronym_ids_and_expansions s q @ [(next_id s, strip e)]
            else get_acronym_ids_and_expansions s q)"
  using assms
  by (simp add: get_acronym_ids_and_expansions_def add_acronym_def normalize_term_def upper_Nil_iff
      select_insert Let_def)

lemma next_id_add:
  assumes "strip tm \<noteq> []" "strip e \<noteq> []"
  shows "next_id s < next_id (add_acronym s tm e now)"
proof -
  have "seq (add_acronym s tm e now) = next_id s"
    using assms by (simp add: add_acronym_def upper_Nil_iff sql_insert_def Let_def)
  then show ?thesis using next_id_gt_seq[of "add_acronym s tm e now"] by simp
qed

lemma get_acronyms_absent:
  assumes "normalize_term tm \<notin> row_term ` set (rows s)"
  shows "get_acronyms s tm = []" "get_acronym_ids_and_expansions s tm = []"
proof -
  have "row_term r \<noteq> normalize_term tm" if "r \<in> set (rows s)" for r
  proof
    assume "row_term r = normalize_term tm"
    with that have "normalize_term tm \<in> row_term ` set (rows s)" by (metis imageI)
    with assms show False by simp
  qed
  then have "filter (\<lambda>r. row_term r = normalize_term tm) (rows s) = []"
    by (simp add: filter_empty_conv)
  then show "get_acronyms s tm = []" "get_acronym_ids_and_expansions s tm = []"
    by (simp_all add: get_acronyms_def get_acronym_ids_and_expansions_def normalize_term_def
        sql_select_term_def)
qed

section \<open>Facts about decimal numbers and tokens\<close>

lemma digit_char_props:
  assumes "d < 10"
  shows "is_digit (digit_char d)" and "digit_val (digit_char d) = d"
  using assms by (simp_all add: is_digit_def digit_char_def digit_val_def)

lemma digits_ne: "digits n \<noteq> []"
  by (subst digits.simps) simp

lemma digits_all_digit: "list_all is_digit (digits n)"
proof (induction n rule: digits.induct)
  case (1 n)
  show ?case
  proof (cases "n < 10")
    case True
    then show ?thesis by (subst digits.simps) (simp add: digit_char_props)
  next
    case False
    then have "list_all is_digit (digits (n div 10))" using "1.IH" by simp
    moreover have "is_digit (digit_char (n mod 10))" by (simp add: digit_char_props)
    ultimately show ?thesis using False by (subst digits.simps) simp
  qed
qed

lemma digits_value_snoc: "digits_value (cs @ [c]) = 10 * digits_value cs + digit_val c"
  by (simp add: digits_value_def)

lemma digits_value_digits: "digits_value (digits n) = n"
proof (induction n rule: digits.induct)
  case (1 n)
  show ?case
  proof (cases "n < 10")
    case True
    then show ?thesis
      by (subst digits.simps) (simp add: digits_value_def digit_char_props)
  next
    case False
    then have "digits_value (digits (n div 10)) = n div 10" using "1.IH" by simp
    then show ?thesis using False
      by (subst digits.simps) (simp add: digits_value_snoc digit_char_props)
  qed
qed

lemma unsigned_literal_digits: "unsigned_literal (digits n) = Some (int n)"
  by (simp add: unsigned_literal_def digits_ne digits_all_digit digits_value_digits)

lemma is_digit_not_special:
  assumes "is_digit c"
  shows "c \<noteq> CHR ''|''" "c \<noteq> CHR ''_''" "c \<noteq> CHR ''-''" "c \<noteq> CHR ''+''" "\<not> is_space c"
  using assms by (auto simp: is_digit_def is_space_def Let_def)

lemma digits_set: "c \<in> set (digits n) \<Longrightarrow> is_digit c"
  using digits_all_digit[of n] by (simp add: list_all_iff)

lemma str_int_set: "c \<in> set (str_int i) \<Longrightarrow> c = CHR ''-'' \<or> is_digit c"
  by (auto simp: str_int_def dest: digits_set split: if_splits)

lemma str_int_no_bar: "CHR ''|'' \<notin> set (str_int i)"
  using str_int_set[of "CHR ''|''" i] is_digit_not_special(1)[of "CHR ''|''"] by auto

lemma str_int_no_underscore: "CHR ''_'' \<notin> set (str_int i)"
  using str_int_set[of "CHR ''_''" i] is_digit_not_special(2)[of "CHR ''_''"] by auto

lemma str_int_no_space: "c \<in> set (str_int i) \<Longrightarrow> \<not> is_space c"
  using str_int_set[of c i] is_digit_not_special(5)[of c] by (auto simp: is_space_def)

lemma str_int_ne: "str_int i \<noteq> []"
  by (simp add: str_int_def digits_ne)

lemma strip_str_int: "strip (str_int i) = str_int i"
proof (rule strip_fixed)
  have "hd (str_int i) \<in> set (str_int i)" "last (str_int i) \<in> set (str_int i)"
    using str_int_ne by simp_all
  then show "str_int i = [] \<or> (\<not> is_space (hd (str_int i)) \<and> \<not> is_space (last (str_int i)))"
    using str_int_no_space by blast
qed

lemma drop_underscores_none: "CHR ''_'' \<notin> set cs \<Longrightarrow> drop_underscores d cs = Some cs"
  by (induction cs arbitrary: d) auto

lemma signed_literal_str_int: "signed_literal (str_int i) = Some i"
proof (cases "i < 0")
  case True
  then show ?thesis
    by (simp add: signed_literal_def str_int_def unsigned_literal_digits)
next
  case False
  obtain c cs where d: "digits (nat i) = c # cs" using digits_ne[of "nat i"] by (cases "digits (nat i)") auto
  then have "is_digit c" using digits_set[of c "nat i"] by simp
  then have "c \<noteq> CHR ''-''" "c \<noteq> CHR ''+''" using is_digit_not_special by blast+
  moreover have "unsigned_literal (c # cs) = Some (int (nat i))"
    using unsigned_literal_digits[of "nat i"] d by simp
  ultimately show ?thesis using False d by (simp add: signed_literal_def str_int_def)
qed

lemma py_int_str_int: "py_int (str_int i) = Inr i"
  by (simp add: py_int_def strip_str_int drop_underscores_none str_int_no_underscore signed_literal_str_int)

lemma id_eq_text_str_int: "id_eq_text j (str_int i) \<longleftrightarrow> j = i"
  by (auto simp: id_eq_text_def signed_literal_str_int)

lemma split_token_encode: "split_token (encode_token i tm) = Inr (str_int i, tm)"
proof -
  have a: "\<forall>c\<in>set (str_int i). c \<noteq> CHR ''|''" using str_int_no_bar[of i] by auto
  have "takeWhile (\<lambda>c. c \<noteq> CHR ''|'') (str_int i @ CHR ''|'' # tm) = str_int i"
    using a by (simp add: takeWhile_append2)
  moreover have "dropWhile (\<lambda>c. c \<noteq> CHR ''|'') (str_int i @ CHR ''|'' # tm) = CHR ''|'' # tm"
    using a by (simp add: dropWhile_append2)
  ultimately show ?thesis by (simp add: split_token_def encode_token_def)
qed

section \<open>Facts about the update\<close>

lemma update_by_token:
  "sql_update s new_exp (str_int i)
     = s\<lparr>rows := map (\<lambda>r. if row_id r = i then r\<lparr>expansion := new_exp\<rparr> else r) (rows s)\<rparr>"
  by (simp add: sql_update_def id_eq_text_str_int)

lemma handle_edit_view_token:
  "handle_edit_view s (encode_token i tm) v =
     Inr (if strip v = [] then s
          else s\<lparr>rows := map (\<lambda>r. if row_id r = i then r\<lparr>expansion := strip v\<rparr> else r) (rows s)\<rparr>)"
  by (simp add: handle_edit_view_def split_token_encode update_by_token Let_def)

lemma fetch_rows_after_update:
  "i \<in> row_id ` set xs \<Longrightarrow>
   (case filter (\<lambda>r. row_id r = i) (map (\<lambda>r. if row_id r = i then r\<lparr>expansion := x\<rparr> else r) xs) of
      [] \<Rightarrow> None | r # _ \<Rightarrow> Some (expansion r)) = Some x"
proof (induction xs)
  case Nil
  then show ?case by simp
next
  case (Cons a xs)
  show ?case
  proof (cases "row_id a = i")
    case True
    then show ?thesis by simp
  next
    case False
    with Cons.prems have "i \<in> row_id ` set xs" by auto
    then show ?thesis using False Cons.IH by simp
  qed
qed

lemma fetch_after_update:
  assumes "i \<in> row_id ` set (rows s)"
  shows "fetch_expansion
           (s\<lparr>rows := map (\<lambda>r. if row_id r = i then r\<lparr>expansion := x\<rparr> else r) (rows s)\<rparr>)
           (str_int i) = Some x"
  using fetch_rows_after_update[OF assms, of x]
  by (simp add: fetch_expansion_def id_eq_text_str_int)

lemma map_update_absent:
  "i \<notin> row_id ` set xs \<Longrightarrow> map (\<lambda>r. if row_id r = i then r\<lparr>expansion := x\<rparr> else r) xs = xs"
  by (induction xs) auto

section \<open>Facts about the invariant\<close>

lemma sql_update_fields:
  "map row_id (rows (sql_update s x aid)) = map row_id (rows s)"
  "map row_term (rows (sql_update s x aid)) = map row_term (rows s)"
  "map created_at (rows (sql_update s x aid)) = map created_at (rows s)"
  "seq (sql_update s x aid) = seq s"
  by (simp_all add: sql_update_def comp_def if_distrib[of row_id] if_distrib[of row_term]
      if_distrib[of created_at])

lemma sql_update_inv:
  assumes "store_inv s" "strip x \<noteq> []"
  shows "store_inv (sql_update s x aid)"
proof -
  have d: "distinct (map row_id (rows (sql_update s x aid)))"
    using assms(1) by (simp add: sql_update_fields store_inv_def)
  have "row_term r = upper (row_term r) \<and> strip (row_term r) \<noteq> [] \<and> strip (expansion r) \<noteq> []"
    if "r \<in> set (rows (sql_update s x aid))" for r
  proof -
    from that obtain r0 where r0: "r0 \<in> set (rows s)"
      and r: "r = (if id_eq_text (row_id r0) aid then r0\<lparr>expansion := x\<rparr> else r0)"
      by (auto simp: sql_update_def)
    from r0 assms(1) have "row_term r0 = upper (row_term r0)" "strip (row_term r0) \<noteq> []"
      "strip (expansion r0) \<noteq> []"
      by (simp_all add: store_inv_def)
    then show ?thesis using r assms(2) by (cases "id_eq_text (row_id r0) aid") simp_all
  qed
  with d show ?thesis by (simp add: store_inv_def)
qed

lemma handle_edit_view_cases:
  assumes "handle_edit_view s meta v = Inr s'"
  shows "s' = s \<or> (strip v \<noteq> [] \<and> (\<exists>aid. s' = sql_update s (strip v) aid))"
  using assms
  by (auto simp: handle_edit_view_def Let_def split: sum.splits prod.splits if_splits)

lemma add_acronym_inv:
  assumes "store_inv s"
  shows "store_inv (add_acronym s tm e now)"
proof (cases "strip tm = [] \<or> strip e = []")
  case True
  then have "add_acronym s tm e now = s" by (auto simp: add_acronym_def upper_def)
  with assms show ?thesis by simp
next
  case False
  let ?r = "\<lparr>row_id = next_id s, row_term = upper (strip tm), expansion = strip e, created_at = now\<rparr>"
  from False have rows': "rows (add_acronym s tm e now) = rows s @ [?r]"
    by (simp add: add_acronym_def upper_def sql_insert_def Let_def)
  have d: "distinct (map row_id (rows s @ [?r]))"
    using assms next_id_fresh[of s] by (simp add: store_inv_def)
  have t: "strip (upper (strip tm)) \<noteq> []"
    using False by (simp add: strip_upper strip_idem upper_Nil_iff)
  have e: "strip (strip e) \<noteq> []" using False by (simp add: strip_idem)
  have "\<forall>r\<in>set (rows s @ [?r]).
          row_term r = upper (row_term r) \<and> strip (row_term r) \<noteq> [] \<and> strip (expansion r) \<noteq> []"
    using assms t e by (simp add: store_inv_def upper_idem)
  with d show ?thesis unfolding store_inv_def rows' by blast
qed

lemma delete_inv:
  assumes "store_inv s"
  shows "store_inv (delete_acronym_by_id s i)"
  using assms
  by (simp add: store_inv_def delete_acronym_by_id_def sql_delete_def distinct_map_filter)

lemma delete_one_row:
  assumes "distinct (map row_id xs)" "i \<in> row_id ` set xs"
  shows "length (filter (\<lambda>r. row_id r \<noteq> i) xs) + 1 = length xs"
  using assms
proof (induction xs)
  case Nil
  then show ?case by simp
next
  case (Cons a xs)
  show ?case
  proof (cases "row_id a = i")
    case True
    with Cons.prems(1) have "i \<notin> row_id ` set xs" by auto
    then have "filter (\<lambda>r. row_id r \<noteq> i) xs = xs" by (auto simp: filter_id_conv)
    with True show ?thesis by simp
  next
    case False
    with Cons.prems have "distinct (map row_id xs)" "i \<in> row_id ` set xs" by auto
    then show ?thesis using False Cons.IH by simp
  qed
qed

lemma init_db_inv: "store_inv init_db"
  by (simp add: store_inv_def init_db_def)

lemma example_store_inv: "store_inv example_store"
proof -
  have u: "upper ''X'' = ''X''" "upper ''ATO'' = ''ATO''" by code_simp+
  have s: "strip ''X'' = ''X''" "strip ''ATO'' = ''ATO''" "strip ''A'' = ''A''" "strip ''B'' = ''B''"
    "strip ''Authority to Operate'' = ''Authority to Operate''"
    by (simp_all add: strip_def is_space_def)
  show ?thesis by (simp add: store_inv_def example_store_def u s)
qed

section \<open>Facts about the formatter\<close>

lemma numbered_lines_eq:
  "numbered_lines idx es acc
     = acc @ map (\<lambda>k. str_int (idx + int k) @ ''. '' @ es ! k) [0..<length es]"
proof (induction es arbitrary: idx acc)
  case Nil
  show ?case by simp
next
  case (Cons e es)
  have "map (\<lambda>k. str_int (idx + int k) @ ''. '' @ (e # es) ! k) [0..<length (e # es)]
          = (str_int idx @ ''. '' @ e)
            # map (\<lambda>k. str_int (idx + 1 + int k) @ ''. '' @ es ! k) [0..<length es]"
    by (simp add: map_upt_Suc add.assoc del: upt_Suc)
  then show ?case by (simp add: Cons.IH)
qed

lemma join_lines_eq: "join_lines (l # ls) = l @ concat (map (\<lambda>m. CHR 0x0A # m) ls)"
  by (induction ls arbitrary: l) simp_all

section \<open>Facts about the router\<close>

lemma subcommand_not_view: "subcommand s txt verb act cancel \<noteq> Views_open tr vw"
  by (simp add: subcommand_def Let_def)

lemma handle_acronym_lookup:
  assumes "command_text c \<noteq> []" "\<not> startswith (lower (command_text c)) ''add''"
    "\<not> startswith (lower (command_text c)) ''delete''"
    "\<not> startswith (lower (command_text c)) ''edit''"
  shows "handle_acronym s c
           = Respond (format_defs (command_text c) (get_acronyms s (command_text c)))
               (if get_acronyms s (command_text c) = [] then Ephemeral else In_channel)"
  using assms by (simp add: handle_acronym_def Let_def)

lemma handle_acronym_usage:
  assumes "command_text c = []"
  shows "handle_acronym s c = Respond ''Usage: `/wtf ATO` or `/wtf add`'' Ephemeral"
  using assms by (simp add: handle_acronym_def Let_def)

lemma takeWhile_take: "takeWhile P xs = take (length (takeWhile P xs)) xs"
  by (induction xs) auto

lemma add_token_dispatch:
  assumes "split_ws 2 (command_text c) = p # ps" "lower p = ''add''"
  shows "\<exists>vw. handle_acronym s c = Views_open (trigger_id c) vw"
proof -
  let ?t = "command_text c"
  have ne: "?t \<noteq> []"
  proof
    assume "?t = []"
    then have "split_ws 2 ?t = []" by (simp add: numeral_2_eq_2)
    with assms(1) show False by simp
  qed
  have "strip (case cmd_text c of None \<Rightarrow> [] | Some t \<Rightarrow> t) \<noteq> []"
    using ne by (simp add: command_text_def)
  then have "\<not> is_space (hd ?t)" unfolding command_text_def by (rule strip_ends(1))
  then have d: "dropWhile is_space ?t = ?t" using ne by (cases ?t) auto
  have "hd (split_ws 2 ?t) = takeWhile (\<lambda>c. \<not> is_space c) ?t"
    using ne by (simp add: numeral_2_eq_2 d Let_def)
  with assms have w: "map lower_ch (takeWhile (\<lambda>c. \<not> is_space c) ?t) = ''add''"
    by (simp add: lower_def)
  then have "length (takeWhile (\<lambda>c. \<not> is_space c) ?t) = 3"
    using length_map[of lower_ch "takeWhile (\<lambda>c. \<not> is_space c) ?t"] by simp
  then have "takeWhile (\<lambda>c. \<not> is_space c) ?t = take 3 ?t"
    using takeWhile_take[of "\<lambda>c. \<not> is_space c" ?t] by simp
  with w have "take 3 (lower ?t) = ''add''" by (simp add: lower_def take_map)
  then have "startswith (lower ?t) ''add''" by (simp add: startswith_def eval_nat_numeral)
  with ne show ?thesis by (simp add: handle_acronym_def Let_def)
qed

section \<open>Inserting\<close>

text \<open>
  C1. \<open>add_acronym\<close> stores the term trimmed and in upper case and the expansion trimmed.
  When the term or the expansion is blank (empty once trimmed) it returns the table as it
  was: the same rows, and nothing raised. Otherwise it adds exactly one row, whose id is
  none of the ids in the table (it lies above them all).
\<close>

theorem add_acronym_insert:
  "(strip tm = [] \<or> strip e = [] \<longrightarrow>
      add_acronym s tm e now = s \<and> mset (rows (add_acronym s tm e now)) = mset (rows s))
   \<and> (strip tm \<noteq> [] \<and> strip e \<noteq> [] \<longrightarrow>
      (\<exists>r. rows (add_acronym s tm e now) = rows s @ [r]
           \<and> mset (rows (add_acronym s tm e now)) = mset (rows s) + {#r#}
           \<and> row_term r = upper (strip tm) \<and> expansion r = strip e \<and> created_at r = now
           \<and> row_id r \<notin> row_id ` set (rows s)
           \<and> (\<forall>r'\<in>set (rows s). row_id r' < row_id r)))"
proof (intro conjI impI)
  assume "strip tm = [] \<or> strip e = []"
  then show "add_acronym s tm e now = s"
    by (auto simp: add_acronym_def upper_def)
  then show "mset (rows (add_acronym s tm e now)) = mset (rows s)"
    by simp
next
  assume ne: "strip tm \<noteq> [] \<and> strip e \<noteq> []"
  let ?r = "\<lparr>row_id = next_id s, row_term = upper (strip tm), expansion = strip e, created_at = now\<rparr>"
  from ne have rows': "rows (add_acronym s tm e now) = rows s @ [?r]"
    by (simp add: add_acronym_def upper_def sql_insert_def Let_def)
  have fresh: "row_id ?r \<notin> row_id ` set (rows s)"
    using next_id_fresh[of s] by simp
  have above: "\<forall>r'\<in>set (rows s). row_id r' < row_id ?r"
    using next_id_gt[of _ s] by simp
  show "\<exists>r. rows (add_acronym s tm e now) = rows s @ [r]
           \<and> mset (rows (add_acronym s tm e now)) = mset (rows s) + {#r#}
           \<and> row_term r = upper (strip tm) \<and> expansion r = strip e \<and> created_at r = now
           \<and> row_id r \<notin> row_id ` set (rows s)
           \<and> (\<forall>r'\<in>set (rows s). row_id r' < row_id r)"
  proof (intro exI[of _ ?r] conjI)
    show "rows (add_acronym s tm e now) = rows s @ [?r]" by (rule rows')
    show "mset (rows (add_acronym s tm e now)) = mset (rows s) + {#?r#}" by (simp add: rows')
    show "row_id ?r \<notin> row_id ` set (rows s)" by (rule fresh)
    show "\<forall>r'\<in>set (rows s). row_id r' < row_id ?r" by (rule above)
  qed simp_all
qed

theorem add_acronym_insert_witness:
  "add_acronym init_db ''  '' ''x'' 7 = init_db
   \<and> rows (add_acronym init_db ''ato'' '' Authority to Operate '' 7)
       = [\<lparr>row_id = 1, row_term = ''ATO'', expansion = ''Authority to Operate'', created_at = 7\<rparr>]"
proof -
  have b: "strip ''  '' = []" by (simp add: strip_def is_space_def)
  have t: "strip ''ato'' = ''ato''" by (simp add: strip_def is_space_def)
  have e: "strip '' Authority to Operate '' = ''Authority to Operate''"
    by (simp add: strip_def is_space_def)
  have u: "upper ''ato'' = ''ATO''" by code_simp
  have i: "next_id init_db = 1" by (simp add: next_id_def init_db_def)
  from add_acronym_insert[of "''  ''" "''x''" init_db 7] b
  have 1: "add_acronym init_db ''  '' ''x'' 7 = init_db" by simp
  from add_acronym_insert[of "''ato''" "'' Authority to Operate ''" init_db 7] t e
  obtain r where r: "rows (add_acronym init_db ''ato'' '' Authority to Operate '' 7) = rows init_db @ [r]"
    "row_term r = upper ''ato''" "expansion r = ''Authority to Operate''" "created_at r = 7"
    by auto
  have "row_id r = 1"
    using r(1) t e u i by (auto simp: add_acronym_def sql_insert_def init_db_def Let_def)
  with r u have "r = \<lparr>row_id = 1, row_term = ''ATO'', expansion = ''Authority to Operate'', created_at = 7\<rparr>"
    by (cases r) simp
  with r(1) 1 show ?thesis by (simp add: init_db_def)
qed

section \<open>Looking up\<close>

text \<open>
  C2. Looking a term up gives the same list as looking up its normal form (trimmed, then
  upper case), so every variant of a term in case or in surrounding white space gives
  the same list. A row is found exactly when its stored term equals the normal form of the
  term asked for; where no stored term equals it, the list is empty.
\<close>

theorem lookup_normalize:
  "get_acronyms s tm = get_acronyms s (normalize_term tm)
   \<and> (normalize_term tm' = normalize_term tm \<longrightarrow> get_acronyms s tm' = get_acronyms s tm)
   \<and> (upper tm' = upper tm \<or> strip tm' = strip tm \<longrightarrow> get_acronyms s tm' = get_acronyms s tm)
   \<and> get_acronyms s tm
       = map expansion (sort_key row_id (filter (\<lambda>r. row_term r = normalize_term tm) (rows s)))
   \<and> ((\<forall>r\<in>set (rows s). row_term r \<noteq> normalize_term tm) \<longrightarrow> get_acronyms s tm = [])"
proof (intro conjI impI)
  show "get_acronyms s tm = get_acronyms s (normalize_term tm)"
    using normalize_idem[of tm] by (simp add: get_acronyms_def normalize_term_def)
  show "get_acronyms s tm' = get_acronyms s tm" if "normalize_term tm' = normalize_term tm"
    using that by (simp add: get_acronyms_def normalize_term_def)
  show "get_acronyms s tm' = get_acronyms s tm" if "upper tm' = upper tm \<or> strip tm' = strip tm"
  proof -
    from that have "upper (strip tm') = upper (strip tm)"
      using strip_upper[of tm'] strip_upper[of tm] by auto
    then show ?thesis by (simp add: get_acronyms_def)
  qed
  show "get_acronyms s tm
       = map expansion (sort_key row_id (filter (\<lambda>r. row_term r = normalize_term tm) (rows s)))"
    by (simp add: get_acronyms_def normalize_term_def sql_select_term_def)
  show "get_acronyms s tm = []" if "\<forall>r\<in>set (rows s). row_term r \<noteq> normalize_term tm"
  proof -
    from that have "filter (\<lambda>r. row_term r = normalize_term tm) (rows s) = []"
      by (simp add: filter_empty_conv)
    then show ?thesis by (simp add: get_acronyms_def normalize_term_def sql_select_term_def)
  qed
qed

theorem lookup_normalize_witness:
  "normalize_term '' ato '' = normalize_term ''ATO''
   \<and> get_acronyms example_store '' ato '' = get_acronyms example_store ''ATO''
   \<and> get_acronyms example_store ''ATO'' = [''Authority to Operate'']
   \<and> normalize_term ''at'' \<notin> row_term ` set (rows example_store)
   \<and> get_acronyms example_store ''at'' = []"
proof -
  have n: "normalize_term '' ato '' = normalize_term ''ATO''" by code_simp
  have m: "normalize_term ''ATO'' = ''ATO''" by code_simp
  have k: "normalize_term ''at'' = ''AT''" by code_simp
  have h: "\<forall>r\<in>set (rows example_store). row_term r \<noteq> normalize_term ''at''"
    by (simp add: k example_store_def)
  from lookup_normalize[of example_store "''ATO''" "'' ato ''"] n
  have 1: "get_acronyms example_store '' ato '' = get_acronyms example_store ''ATO''"
    and 2: "get_acronyms example_store ''ATO''
              = map expansion (sort_key row_id (filter (\<lambda>r. row_term r = normalize_term ''ATO'') (rows example_store)))"
    by blast+
  have 3: "get_acronyms example_store ''ATO'' = [''Authority to Operate'']"
    unfolding 2 m by (simp add: example_store_def)
  from lookup_normalize[of example_store "''at''"] h
  have 4: "get_acronyms example_store ''at'' = []" by blast
  have "normalize_term ''at'' \<notin> row_term ` set (rows example_store)"
    by (simp add: k example_store_def)
  with n 1 3 4 show ?thesis by simp
qed

text \<open>
  C3. After a term and an expansion that are not blank are inserted, looking up a term
  with the same normal form gives the list from before followed by the trimmed expansion,
  and looking up any other term gives the list from before. Two inserts under the same
  term, in any variant of case, add the two trimmed expansions in the order of the
  inserts, the second under the larger id; on a table with no row of that term, whatever
  other rows it holds, the list has just these two. Inserting \<open>"ato"\<close> with
  \<open>" Authority to Operate "\<close> into the empty table and looking \<open>"ATO"\<close> up
  gives \<open>["Authority to Operate"]\<close>.
\<close>

theorem insert_lookup_roundtrip:
  "(strip tm \<noteq> [] \<and> strip e \<noteq> [] \<longrightarrow>
      get_acronyms (add_acronym s tm e now) q
        = (if normalize_term q = normalize_term tm then get_acronyms s q @ [strip e]
           else get_acronyms s q)
      \<and> get_acronyms (add_acronym s tm e now) tm = get_acronyms s tm @ [strip e]
      \<and> strip e \<in> set (get_acronyms (add_acronym s tm e now) tm))
   \<and> (strip tm \<noteq> [] \<and> strip e1 \<noteq> [] \<and> strip e2 \<noteq> [] \<and> normalize_term tm2 = normalize_term tm \<longrightarrow>
      get_acronyms (add_acronym (add_acronym s tm e1 n1) tm2 e2 n2) tm
        = get_acronyms s tm @ [strip e1, strip e2]
      \<and> get_acronym_ids_and_expansions (add_acronym (add_acronym s tm e1 n1) tm2 e2 n2) tm
        = get_acronym_ids_and_expansions s tm
          @ [(next_id s, strip e1), (next_id (add_acronym s tm e1 n1), strip e2)]
      \<and> next_id s < next_id (add_acronym s tm e1 n1)
      \<and> (normalize_term tm \<notin> row_term ` set (rows s) \<longrightarrow>
           get_acronyms (add_acronym (add_acronym s tm e1 n1) tm2 e2 n2) tm = [strip e1, strip e2]))
   \<and> get_acronyms (add_acronym init_db ''ato'' '' Authority to Operate '' now) ''ATO''
       = [''Authority to Operate'']"
proof (intro conjI impI)
  assume a: "strip tm \<noteq> [] \<and> strip e \<noteq> []"
  then show "get_acronyms (add_acronym s tm e now) q
        = (if normalize_term q = normalize_term tm then get_acronyms s q @ [strip e]
           else get_acronyms s q)"
    by (simp add: get_acronyms_add)
  from a show 1: "get_acronyms (add_acronym s tm e now) tm = get_acronyms s tm @ [strip e]"
    by (simp add: get_acronyms_add)
  show "strip e \<in> set (get_acronyms (add_acronym s tm e now) tm)"
    by (simp add: 1)
next
  assume a: "strip tm \<noteq> [] \<and> strip e1 \<noteq> [] \<and> strip e2 \<noteq> [] \<and> normalize_term tm2 = normalize_term tm"
  then have ne2: "strip tm2 \<noteq> []"
    using upper_Nil_iff[of "strip tm2"] upper_Nil_iff[of "strip tm"] by (simp add: normalize_term_def)
  from a ne2 show 2: "get_acronyms (add_acronym (add_acronym s tm e1 n1) tm2 e2 n2) tm
        = get_acronyms s tm @ [strip e1, strip e2]"
    by (simp add: get_acronyms_add)
  from a ne2 show "get_acronym_ids_and_expansions (add_acronym (add_acronym s tm e1 n1) tm2 e2 n2) tm
        = get_acronym_ids_and_expansions s tm
          @ [(next_id s, strip e1), (next_id (add_acronym s tm e1 n1), strip e2)]"
    by (simp add: get_ids_add)
  from a show "next_id s < next_id (add_acronym s tm e1 n1)"
    by (simp add: next_id_add)
  show "get_acronyms (add_acronym (add_acronym s tm e1 n1) tm2 e2 n2) tm = [strip e1, strip e2]"
    if "normalize_term tm \<notin> row_term ` set (rows s)"
    using get_acronyms_absent(1)[OF that] by (simp add: 2)
next
  have t: "strip ''ato'' \<noteq> []" by (simp add: strip_def is_space_def)
  have e: "strip '' Authority to Operate '' = ''Authority to Operate''"
    by (simp add: strip_def is_space_def)
  have n: "normalize_term ''ATO'' = normalize_term ''ato''" by code_simp
  have "get_acronyms init_db ''ATO'' = []"
    by (simp add: get_acronyms_def sql_select_term_def init_db_def)
  then show "get_acronyms (add_acronym init_db ''ato'' '' Authority to Operate '' now) ''ATO''
       = [''Authority to Operate'']"
    using t e n by (simp add: get_acronyms_add)
qed

theorem insert_lookup_roundtrip_witness:
  "strip ''y'' \<noteq> [] \<and> strip ''A'' \<noteq> [] \<and> strip '' B '' \<noteq> []
   \<and> normalize_term '' Y '' = normalize_term ''y''
   \<and> normalize_term ''y'' \<notin> row_term ` set (rows example_store)
   \<and> length (rows example_store) = 3
   \<and> get_acronyms (add_acronym (add_acronym example_store ''y'' ''A'' 40) '' Y '' '' B '' 50) ''y''
       = [''A'', ''B'']
   \<and> get_acronym_ids_and_expansions
         (add_acronym (add_acronym example_store ''y'' ''A'' 40) '' Y '' '' B '' 50) ''y''
       = [(6, ''A''), (7, ''B'')]
   \<and> get_acronyms (add_acronym example_store ''x'' '' C '' 40) ''X'' = [''A'', ''B'', ''C'']
   \<and> get_acronyms (add_acronym example_store ''x'' '' C '' 40) ''ato'' = [''Authority to Operate'']"
proof -
  have a: "strip ''y'' \<noteq> []" "strip ''A'' = ''A''" "strip '' B '' = ''B''"
    "strip ''x'' \<noteq> []" "strip '' C '' = ''C''"
    by (simp_all add: strip_def is_space_def)
  have n: "normalize_term '' Y '' = normalize_term ''y''" by code_simp
  have ny: "normalize_term ''y'' = ''Y''" and nx: "normalize_term ''x'' = ''X''"
    and nX: "normalize_term ''X'' = ''X''" and na: "normalize_term ''ato'' = ''ATO''"
    by code_simp+
  have y: "normalize_term ''y'' \<notin> row_term ` set (rows example_store)"
    by (simp add: ny example_store_def)
  have l: "length (rows example_store) = 3" by (simp add: example_store_def)
  have gy: "get_acronym_ids_and_expansions example_store ''y'' = []"
    using y by (rule get_acronyms_absent(2))
  have gx: "get_acronyms example_store ''X'' = [''A'', ''B'']"
    using nX by (simp add: get_acronyms_def normalize_term_def sql_select_term_def example_store_def)
  have ga: "get_acronyms example_store ''ato'' = [''Authority to Operate'']"
    using na by (simp add: get_acronyms_def normalize_term_def sql_select_term_def example_store_def)
  have i1: "next_id example_store = 6" by (simp add: next_id_def example_store_def)
  have i2: "next_id (add_acronym example_store ''y'' ''A'' 40) = 7"
    using a ny
    by (simp add: next_id_def add_acronym_def normalize_term_def sql_insert_def example_store_def Let_def)
  note w = insert_lookup_roundtrip[of "''y''" "''A''" example_store 40 "''y''" "''A''" "'' B ''" "'' Y ''" 40 50]
  have h: "strip ''y'' \<noteq> [] \<and> strip ''A'' \<noteq> [] \<and> strip '' B '' \<noteq> []
        \<and> normalize_term '' Y '' = normalize_term ''y''"
    using a n by simp
  from w h y
  have "get_acronyms (add_acronym (add_acronym example_store ''y'' ''A'' 40) '' Y '' '' B '' 50) ''y''
       = [strip ''A'', strip '' B '']"
    by blast
  then have 1: "get_acronyms (add_acronym (add_acronym example_store ''y'' ''A'' 40) '' Y '' '' B '' 50) ''y''
       = [''A'', ''B'']"
    by (simp add: a)
  from w h
  have "get_acronym_ids_and_expansions
         (add_acronym (add_acronym example_store ''y'' ''A'' 40) '' Y '' '' B '' 50) ''y''
       = get_acronym_ids_and_expansions example_store ''y''
          @ [(next_id example_store, strip ''A''),
             (next_id (add_acronym example_store ''y'' ''A'' 40), strip '' B '')]"
    by blast
  then have 2: "get_acronym_ids_and_expansions
         (add_acronym (add_acronym example_store ''y'' ''A'' 40) '' Y '' '' B '' 50) ''y''
       = [(6, ''A''), (7, ''B'')]"
    by (simp add: gy i1 i2 a)
  from insert_lookup_roundtrip[of "''x''" "'' C ''" example_store 40 "''X''"] a nx nX gx
  have 3: "get_acronyms (add_acronym example_store ''x'' '' C '' 40) ''X'' = [''A'', ''B'', ''C'']"
    by simp
  from insert_lookup_roundtrip[of "''x''" "'' C ''" example_store 40 "''ato''"] a nx na ga
  have 4: "get_acronyms (add_acronym example_store ''x'' '' C '' 40) ''ato'' = [''Authority to Operate'']"
    by simp
  have s: "strip ''A'' \<noteq> []" "strip '' B '' \<noteq> []" by (simp_all add: a)
  show ?thesis
    by (intro conjI) (rule a(1) s n y l 1 2 3 4)+
qed

section \<open>Editing\<close>

text \<open>
  C4, as the code has it. The edit dialog's submission, for the token of id \<open>i\<close>: a new
  expansion that is blank leaves the table as it was. One that is not blank is written,
  trimmed of the white space around it, to the expansion of the rows with id \<open>i\<close> and
  to nothing else, so that fetching the expansion of \<open>i\<close> afterwards gives the trimmed
  text; where no row has id \<open>i\<close> the table is unchanged.
\<close>

theorem edit_updates_expansion:
  "(strip v = [] \<longrightarrow> handle_edit_view s (encode_token i tm) v = Inr s)
   \<and> (strip v \<noteq> [] \<longrightarrow>
        (\<exists>s'. handle_edit_view s (encode_token i tm) v = Inr s'
           \<and> rows s' = map (\<lambda>r. if row_id r = i then r\<lparr>expansion := strip v\<rparr> else r) (rows s)
           \<and> seq s' = seq s
           \<and> (i \<in> row_id ` set (rows s) \<longrightarrow> fetch_expansion s' (str_int i) = Some (strip v))
           \<and> (i \<notin> row_id ` set (rows s) \<longrightarrow> s' = s)))"
proof (intro conjI impI)
  assume "strip v = []"
  then show "handle_edit_view s (encode_token i tm) v = Inr s"
    by (simp add: handle_edit_view_token)
next
  assume ne: "strip v \<noteq> []"
  let ?s' = "s\<lparr>rows := map (\<lambda>r. if row_id r = i then r\<lparr>expansion := strip v\<rparr> else r) (rows s)\<rparr>"
  have 1: "handle_edit_view s (encode_token i tm) v = Inr ?s'"
    using ne by (simp add: handle_edit_view_token)
  have 2: "i \<in> row_id ` set (rows s) \<longrightarrow> fetch_expansion ?s' (str_int i) = Some (strip v)"
    using fetch_after_update by blast
  have 3: "i \<notin> row_id ` set (rows s) \<longrightarrow> ?s' = s"
    by (simp add: map_update_absent)
  show "\<exists>s'. handle_edit_view s (encode_token i tm) v = Inr s'
           \<and> rows s' = map (\<lambda>r. if row_id r = i then r\<lparr>expansion := strip v\<rparr> else r) (rows s)
           \<and> seq s' = seq s
           \<and> (i \<in> row_id ` set (rows s) \<longrightarrow> fetch_expansion s' (str_int i) = Some (strip v))
           \<and> (i \<notin> row_id ` set (rows s) \<longrightarrow> s' = s)"
  proof (intro exI[of _ ?s'] conjI)
    show "handle_edit_view s (encode_token i tm) v = Inr ?s'" by (rule 1)
    show "rows ?s' = map (\<lambda>r. if row_id r = i then r\<lparr>expansion := strip v\<rparr> else r) (rows s)"
      by simp
    show "seq ?s' = seq s" by simp
    show "i \<in> row_id ` set (rows s) \<longrightarrow> fetch_expansion ?s' (str_int i) = Some (strip v)"
      by (rule 2)
    show "i \<notin> row_id ` set (rows s) \<longrightarrow> ?s' = s" by (rule 3)
  qed
qed

theorem edit_updates_expansion_witness:
  "strip ''  '' = [] \<and> handle_edit_view example_store (encode_token 2 ''X'') ''  '' = Inr example_store
   \<and> strip '' C '' \<noteq> [] \<and> 2 \<in> row_id ` set (rows example_store)
   \<and> map expansion (rows (projr (handle_edit_view example_store (encode_token 2 ''X'') '' C '')))
       = [''A'', ''C'', ''Authority to Operate'']
   \<and> fetch_expansion (projr (handle_edit_view example_store (encode_token 2 ''X'') '' C '')) (str_int 2)
       = Some ''C''"
proof -
  have b: "strip ''  '' = []" and v: "strip '' C '' = ''C''" by (simp_all add: strip_def is_space_def)
  have m: "2 \<in> row_id ` set (rows example_store)" by (simp add: example_store_def)
  from edit_updates_expansion[of "''  ''" example_store 2 "''X''"] b
  have 1: "handle_edit_view example_store (encode_token 2 ''X'') ''  '' = Inr example_store" by simp
  from edit_updates_expansion[of "'' C ''" example_store 2 "''X''"] v m
  obtain s' where s': "handle_edit_view example_store (encode_token 2 ''X'') '' C '' = Inr s'"
    "rows s' = map (\<lambda>r. if row_id r = 2 then r\<lparr>expansion := ''C''\<rparr> else r) (rows example_store)"
    "fetch_expansion s' (str_int 2) = Some ''C''"
    by auto
  from s'(2) have e: "map expansion (rows s') = [''A'', ''C'', ''Authority to Operate'']"
    by (simp add: example_store_def)
  have p: "projr (handle_edit_view example_store (encode_token 2 ''X'') '' C '') = s'"
    by (simp only: s'(1) sum.sel)
  have n: "strip '' C '' \<noteq> []" by (simp only: v) simp
  show ?thesis
    unfolding p by (intro conjI) (rule b 1 n m e s'(3))+
qed

text \<open>
  The claim as the specification words it has the fetch give back the new expansion
  itself. It does not when the text has white space around it: \<open>" C "\<close> is stored, and
  fetched, as \<open>"C"\<close>.
\<close>

theorem edit_keeps_surrounding_space_counterexample:
  "handle_edit_view example_store (encode_token 2 ''X'') '' C ''
     = Inr (example_store\<lparr>rows :=
              [\<lparr>row_id = 1, row_term = ''X'', expansion = ''A'', created_at = 10\<rparr>,
               \<lparr>row_id = 2, row_term = ''X'', expansion = ''C'', created_at = 20\<rparr>,
               \<lparr>row_id = 4, row_term = ''ATO'', expansion = ''Authority to Operate'', created_at = 30\<rparr>]\<rparr>)
   \<and> fetch_expansion (example_store\<lparr>rows :=
              [\<lparr>row_id = 1, row_term = ''X'', expansion = ''A'', created_at = 10\<rparr>,
               \<lparr>row_id = 2, row_term = ''X'', expansion = ''C'', created_at = 20\<rparr>,
               \<lparr>row_id = 4, row_term = ''ATO'', expansion = ''Authority to Operate'', created_at = 30\<rparr>]\<rparr>)
         (str_int 2) = Some ''C''
   \<and> Some ''C'' \<noteq> Some '' C ''"
proof -
  have v: "strip '' C '' = ''C''" by (simp add: strip_def is_space_def)
  show ?thesis
    by (simp add: handle_edit_view_token v fetch_expansion_def id_eq_text_str_int example_store_def)
qed

section \<open>Deleting\<close>

text \<open>
  C5. \<open>delete_acronym_by_id\<close> removes the rows with the given id and no other row; where
  no row has the id the table is unchanged. Deleting the same id a second time changes
  nothing more. Afterwards the id is in no listing of ids and expansions, and a listing is
  the one from before without that id.
\<close>

theorem delete_by_id:
  "rows (delete_acronym_by_id s i) = filter (\<lambda>r. row_id r \<noteq> i) (rows s)
   \<and> seq (delete_acronym_by_id s i) = seq s
   \<and> (i \<notin> row_id ` set (rows s) \<longrightarrow> delete_acronym_by_id s i = s)
   \<and> delete_acronym_by_id (delete_acronym_by_id s i) i = delete_acronym_by_id s i
   \<and> i \<notin> fst ` set (get_acronym_ids_and_expansions (delete_acronym_by_id s i) tm)
   \<and> get_acronym_ids_and_expansions (delete_acronym_by_id s i) tm
       = filter (\<lambda>p. fst p \<noteq> i) (get_acronym_ids_and_expansions s tm)
   \<and> (\<forall>r\<in>set (rows s). row_id r \<noteq> i \<longrightarrow> r \<in> set (rows (delete_acronym_by_id s i)))"
proof (intro conjI impI ballI)
  show r: "rows (delete_acronym_by_id s i) = filter (\<lambda>r. row_id r \<noteq> i) (rows s)"
    by (simp add: delete_acronym_by_id_def sql_delete_def)
  show "seq (delete_acronym_by_id s i) = seq s"
    by (simp add: delete_acronym_by_id_def sql_delete_def)
  show "delete_acronym_by_id s i = s" if "i \<notin> row_id ` set (rows s)"
  proof -
    from that have "filter (\<lambda>r. row_id r \<noteq> i) (rows s) = rows s"
      by (auto simp: filter_id_conv)
    then show ?thesis by (simp add: delete_acronym_by_id_def sql_delete_def)
  qed
  show "delete_acronym_by_id (delete_acronym_by_id s i) i = delete_acronym_by_id s i"
    by (simp add: delete_acronym_by_id_def sql_delete_def)
  show l: "get_acronym_ids_and_expansions (delete_acronym_by_id s i) tm
       = filter (\<lambda>p. fst p \<noteq> i) (get_acronym_ids_and_expansions s tm)"
    by (simp add: get_acronym_ids_and_expansions_def delete_acronym_by_id_def select_delete
        filter_map comp_def)
  show "i \<notin> fst ` set (get_acronym_ids_and_expansions (delete_acronym_by_id s i) tm)"
    unfolding l by auto
  show "r \<in> set (rows (delete_acronym_by_id s i))" if "r \<in> set (rows s)" "row_id r \<noteq> i" for r
    using that by (simp add: r)
qed

theorem delete_by_id_witness:
  "7 \<notin> row_id ` set (rows example_store)
   \<and> delete_acronym_by_id example_store 7 = example_store
   \<and> get_acronym_ids_and_expansions example_store ''x'' = [(1, ''A''), (2, ''B'')]
   \<and> get_acronym_ids_and_expansions (delete_acronym_by_id example_store 1) ''x'' = [(2, ''B'')]"
proof -
  have a: "7 \<notin> row_id ` set (rows example_store)" by (simp add: example_store_def)
  have n: "upper (strip ''x'') = ''X''" by code_simp
  have g: "get_acronym_ids_and_expansions example_store ''x'' = [(1, ''A''), (2, ''B'')]"
    by (simp add: get_acronym_ids_and_expansions_def n sql_select_term_def example_store_def)
  from delete_by_id[of example_store 7] a
  have 1: "delete_acronym_by_id example_store 7 = example_store" by simp
  from delete_by_id[of example_store 1 "''x''"]
  have "get_acronym_ids_and_expansions (delete_acronym_by_id example_store 1) ''x''
       = filter (\<lambda>p. fst p \<noteq> 1) (get_acronym_ids_and_expansions example_store ''x'')"
    by simp
  then have 2: "get_acronym_ids_and_expansions (delete_acronym_by_id example_store 1) ''x'' = [(2, ''B'')]"
    by (simp add: g)
  from a 1 g 2 show ?thesis by simp
qed

section \<open>Formatting\<close>

text \<open>
  C6. \<open>format_defs\<close> is a function of the term and the list. On the empty list it is
  the message that there is nothing yet and to try adding, with the term trimmed and in
  upper case in it. On a list of \<open>N\<close> expansions it is the heading saying that the
  trimmed upper-case term has \<open>N\<close> meaning(s), and after it one line for each
  expansion, in the order of the list, numbered from 1.
\<close>

theorem format_defs_shape:
  "format_defs tm [] = ''Nothing for *'' @ normalize_term tm @ ''* yet. Try `/wtf add` to submit one.''
   \<and> (es \<noteq> [] \<longrightarrow>
        format_defs tm es
          = join_lines ((''*'' @ normalize_term tm @ ''* has '' @ str_int (int (length es)) @ '' meaning(s):'')
                        # map (\<lambda>k. str_int (int k + 1) @ ''. '' @ es ! k) [0..<length es])
        \<and> format_defs tm es
          = ''*'' @ normalize_term tm @ ''* has '' @ str_int (int (length es)) @ '' meaning(s):''
            @ concat (map (\<lambda>k. CHR 0x0A # str_int (int k + 1) @ ''. '' @ es ! k) [0..<length es]))"
proof (intro conjI impI)
  show "format_defs tm [] = ''Nothing for *'' @ normalize_term tm @ ''* yet. Try `/wtf add` to submit one.''"
    by (simp add: format_defs_def normalize_term_def)
next
  assume ne: "es \<noteq> []"
  have n: "numbered_lines 1 es [h] = h # map (\<lambda>k. str_int (int k + 1) @ ''. '' @ es ! k) [0..<length es]"
    for h
    by (simp add: numbered_lines_eq add.commute)
  show 1: "format_defs tm es
          = join_lines ((''*'' @ normalize_term tm @ ''* has '' @ str_int (int (length es)) @ '' meaning(s):'')
                        # map (\<lambda>k. str_int (int k + 1) @ ''. '' @ es ! k) [0..<length es])"
    using ne by (simp add: format_defs_def normalize_term_def n)
  show "format_defs tm es
          = ''*'' @ normalize_term tm @ ''* has '' @ str_int (int (length es)) @ '' meaning(s):''
            @ concat (map (\<lambda>k. CHR 0x0A # str_int (int k + 1) @ ''. '' @ es ! k) [0..<length es])"
    unfolding 1 join_lines_eq by (simp add: comp_def)
qed

theorem format_defs_shape_witness:
  "format_defs '' ato '' [''x'', ''y''] = ''*ATO* has 2 meaning(s):'' @ [CHR 0x0A] @ ''1. x'' @ [CHR 0x0A] @ ''2. y''
   \<and> format_defs ''ZZZ'' (get_acronyms init_db ''ZZZ'')
       = ''Nothing for *ZZZ* yet. Try `/wtf add` to submit one.''"
proof -
  have n: "normalize_term '' ato '' = ''ATO''" "normalize_term ''ZZZ'' = ''ZZZ''" by code_simp+
  have d: "str_int 1 = ''1''" "str_int 2 = ''2''" by code_simp+
  have e: "get_acronyms init_db ''ZZZ'' = []"
    by (simp add: get_acronyms_def sql_select_term_def init_db_def)
  have u: "[0..<2] = [0, 1]" by (simp add: upt_rec)
  from format_defs_shape[of "'' ato ''" "[''x'', ''y'']"]
  have "format_defs '' ato '' [''x'', ''y'']
          = ''*'' @ normalize_term '' ato '' @ ''* has '' @ str_int (int (length [''x'', ''y''])) @ '' meaning(s):''
            @ concat (map (\<lambda>k. CHR 0x0A # str_int (int k + 1) @ ''. '' @ [''x'', ''y''] ! k) [0..<length [''x'', ''y'']])"
    by simp
  then have 1: "format_defs '' ato '' [''x'', ''y'']
      = ''*ATO* has 2 meaning(s):'' @ [CHR 0x0A] @ ''1. x'' @ [CHR 0x0A] @ ''2. y''"
    by (simp add: n d u)
  from format_defs_shape[of "''ZZZ''"]
  have 2: "format_defs ''ZZZ'' (get_acronyms init_db ''ZZZ'')
       = ''Nothing for *ZZZ* yet. Try `/wtf add` to submit one.''"
    by (simp add: e n)
  from 1 2 show ?thesis by (rule conjI)
qed

section \<open>The command router\<close>

text \<open>
  C7. The router opens the add dialog exactly when the trimmed command text, in lower
  case, begins with the letters \<open>add\<close>; it does not look at the first token. A
  command whose first token is \<open>add\<close> in any case does open the dialog
  (\<open>add_token_dispatch\<close>), but so does every text that only begins with these
  letters: the one-token text \<open>address\<close> opens the add dialog, with no term filled in,
  and is not looked up.
\<close>

theorem add_dispatch_by_prefix:
  "((\<exists>tr vw. handle_acronym s c = Views_open tr vw)
      \<longleftrightarrow> command_text c \<noteq> [] \<and> startswith (lower (command_text c)) ''add'')
   \<and> command_text \<lparr>cmd_text = Some ''address'', trigger_id = tr, channel_id = None\<rparr> = ''address''
   \<and> split_ws 2 ''address'' = [''address'']
   \<and> handle_acronym s \<lparr>cmd_text = Some ''address'', trigger_id = tr, channel_id = None\<rparr>
       = Views_open tr \<lparr>callback_id = ''add_acronym'', private_metadata = [], initial_value = None\<rparr>"
proof (intro conjI)
  show "(\<exists>tr vw. handle_acronym s c = Views_open tr vw)
      \<longleftrightarrow> command_text c \<noteq> [] \<and> startswith (lower (command_text c)) ''add''"
    by (simp add: handle_acronym_def Let_def subcommand_not_view)
  show t: "command_text \<lparr>cmd_text = Some ''address'', trigger_id = tr, channel_id = None\<rparr> = ''address''"
    by (simp add: command_text_def strip_def is_space_def)
  show p: "split_ws 2 ''address'' = [''address'']"
    by (simp add: numeral_2_eq_2 is_space_def)
  have l: "lower ''address'' = ''address''" by code_simp
  show "handle_acronym s \<lparr>cmd_text = Some ''address'', trigger_id = tr, channel_id = None\<rparr>
       = Views_open tr \<lparr>callback_id = ''add_acronym'', private_metadata = [], initial_value = None\<rparr>"
    by (simp add: handle_acronym_def t l p startswith_def)
qed

text \<open>
  C8. A command text that is absent, or empty once trimmed, gets the usage help as an
  ephemeral reply, whatever the table holds (\<open>handle_acronym_usage\<close>). A text that
  reaches the lookup gets the formatted lookup, to the whole channel when something was
  found and ephemeral when nothing was (\<open>handle_acronym_lookup\<close>). But a text whose
  first token only begins with the letters of a subcommand does not reach the lookup:
  the one-token text \<open>editor\<close>, on a table where \<open>EDITOR\<close> has a row, gets the
  ephemeral usage help of \<open>edit\<close>, although its lookup is not empty.
\<close>

theorem lookup_prefix_misroute:
  "handle_acronym s \<lparr>cmd_text = None, trigger_id = tr, channel_id = ch\<rparr>
     = Respond ''Usage: `/wtf ATO` or `/wtf add`'' Ephemeral
   \<and> handle_acronym s \<lparr>cmd_text = Some ''  '', trigger_id = tr, channel_id = ch\<rparr>
     = Respond ''Usage: `/wtf ATO` or `/wtf add`'' Ephemeral
   \<and> handle_acronym example_store \<lparr>cmd_text = Some '' ato'', trigger_id = tr, channel_id = ch\<rparr>
     = Respond (format_defs ''ato'' [''Authority to Operate'']) In_channel
   \<and> handle_acronym example_store \<lparr>cmd_text = Some ''zzz'', trigger_id = tr, channel_id = ch\<rparr>
     = Respond (format_defs ''zzz'' []) Ephemeral
   \<and> split_ws 2 ''editor'' = [''editor'']
   \<and> get_acronyms editor_store ''editor'' = [''A program for changing text'']
   \<and> handle_acronym editor_store \<lparr>cmd_text = Some ''editor'', trigger_id = tr, channel_id = ch\<rparr>
     = Respond ''Usage: `/wtf edit [acronym]`'' Ephemeral"
proof (intro conjI)
  let ?n = "\<lparr>cmd_text = None, trigger_id = tr, channel_id = ch\<rparr>"
  let ?b = "\<lparr>cmd_text = Some ''  '', trigger_id = tr, channel_id = ch\<rparr>"
  let ?a = "\<lparr>cmd_text = Some '' ato'', trigger_id = tr, channel_id = ch\<rparr>"
  let ?z = "\<lparr>cmd_text = Some ''zzz'', trigger_id = tr, channel_id = ch\<rparr>"
  let ?e = "\<lparr>cmd_text = Some ''editor'', trigger_id = tr, channel_id = ch\<rparr>"
  have tn: "command_text ?n = []" and tb: "command_text ?b = []"
    and ta: "command_text ?a = ''ato''" and tz: "command_text ?z = ''zzz''"
    and te: "command_text ?e = ''editor''"
    by (simp_all add: command_text_def strip_def is_space_def)
  have l: "lower ''ato'' = ''ato''" "lower ''zzz'' = ''zzz''" "lower ''editor'' = ''editor''"
    by code_simp+
  have u: "upper (strip ''ato'') = ''ATO''" "upper (strip ''zzz'') = ''ZZZ''"
    "upper (strip ''editor'') = ''EDITOR''"
    by code_simp+
  show "handle_acronym s ?n = Respond ''Usage: `/wtf ATO` or `/wtf add`'' Ephemeral"
    using tn by (rule handle_acronym_usage)
  show "handle_acronym s ?b = Respond ''Usage: `/wtf ATO` or `/wtf add`'' Ephemeral"
    using tb by (rule handle_acronym_usage)
  have ga: "get_acronyms example_store ''ato'' = [''Authority to Operate'']"
    by (simp add: get_acronyms_def u sql_select_term_def example_store_def)
  have gz: "get_acronyms example_store ''zzz'' = []"
    by (simp add: get_acronyms_def u sql_select_term_def example_store_def)
  have "handle_acronym example_store ?a
          = Respond (format_defs (command_text ?a) (get_acronyms example_store (command_text ?a)))
              (if get_acronyms example_store (command_text ?a) = [] then Ephemeral else In_channel)"
    by (rule handle_acronym_lookup) (simp_all add: ta l startswith_def)
  then show "handle_acronym example_store ?a
     = Respond (format_defs ''ato'' [''Authority to Operate'']) In_channel"
    by (simp add: ta ga)
  have "handle_acronym example_store ?z
          = Respond (format_defs (command_text ?z) (get_acronyms example_store (command_text ?z)))
              (if get_acronyms example_store (command_text ?z) = [] then Ephemeral else In_channel)"
    by (rule handle_acronym_lookup) (simp_all add: tz l startswith_def)
  then show "handle_acronym example_store ?z = Respond (format_defs ''zzz'' []) Ephemeral"
    by (simp add: tz gz)
  show p: "split_ws 2 ''editor'' = [''editor'']"
    by (simp add: numeral_2_eq_2 is_space_def)
  show "get_acronyms editor_store ''editor'' = [''A program for changing text'']"
    by (simp add: get_acronyms_def u sql_select_term_def editor_store_def)
  show "handle_acronym editor_store ?e = Respond ''Usage: `/wtf edit [acronym]`'' Ephemeral"
    by (simp add: handle_acronym_def te l p startswith_def subcommand_def)
qed

section \<open>The invariant of the table\<close>

text \<open>
  C9. On a table where ids are a key, every stored term is in upper case and not blank
  and every stored expansion is not blank, each operation gives such a table again:
  inserting, the edit dialog's update, deleting by id. None changes the id or the term of
  a row: an insert leaves the rows there as they are, an update keeps the ids, terms and
  time stamps of all rows in place (it replaces expansions only), and a delete keeps the
  other rows as they are and, where the id is in the table, removes exactly one row.
  The empty table of \<open>init_db\<close> is such a table (\<open>init_db_inv\<close>).
\<close>

theorem store_invariant:
  assumes "store_inv s"
  shows "store_inv (add_acronym s tm e now)
   \<and> store_inv (delete_acronym_by_id s i)
   \<and> (\<forall>s'. handle_edit_view s meta v = Inr s' \<longrightarrow>
          store_inv s'
          \<and> map row_id (rows s') = map row_id (rows s)
          \<and> map row_term (rows s') = map row_term (rows s)
          \<and> map created_at (rows s') = map created_at (rows s))
   \<and> take (length (rows s)) (rows (add_acronym s tm e now)) = rows s
   \<and> rows (delete_acronym_by_id s i) = filter (\<lambda>r. row_id r \<noteq> i) (rows s)
   \<and> (i \<in> row_id ` set (rows s) \<longrightarrow>
         length (rows (delete_acronym_by_id s i)) + 1 = length (rows s))"
proof (intro conjI allI impI)
  show "store_inv (add_acronym s tm e now)" using assms by (rule add_acronym_inv)
  show "store_inv (delete_acronym_by_id s i)" using assms by (rule delete_inv)
  show "take (length (rows s)) (rows (add_acronym s tm e now)) = rows s"
    by (simp add: add_acronym_def sql_insert_def Let_def)
  show del: "rows (delete_acronym_by_id s i) = filter (\<lambda>r. row_id r \<noteq> i) (rows s)"
    by (simp add: delete_acronym_by_id_def sql_delete_def)
  show "length (rows (delete_acronym_by_id s i)) + 1 = length (rows s)"
    if "i \<in> row_id ` set (rows s)"
    unfolding del using assms that by (intro delete_one_row) (simp_all add: store_inv_def)
next
  fix s' assume h: "handle_edit_view s meta v = Inr s'"
  from handle_edit_view_cases[OF h]
  consider "s' = s" | aid where "strip v \<noteq> []" "s' = sql_update s (strip v) aid"
    by blast
  then have "store_inv s' \<and> map row_id (rows s') = map row_id (rows s)
          \<and> map row_term (rows s') = map row_term (rows s)
          \<and> map created_at (rows s') = map created_at (rows s)"
  proof cases
    case 1
    with assms show ?thesis by simp
  next
    case 2
    have "strip (strip v) \<noteq> []" using 2(1) by (simp add: strip_idem)
    with assms have "store_inv (sql_update s (strip v) aid)" by (rule sql_update_inv)
    with 2(2) show ?thesis by (simp add: sql_update_fields)
  qed
  then show "store_inv s'" "map row_id (rows s') = map row_id (rows s)"
    "map row_term (rows s') = map row_term (rows s)"
    "map created_at (rows s') = map created_at (rows s)"
    by simp_all
qed

theorem store_invariant_witness:
  "store_inv example_store
   \<and> store_inv (add_acronym example_store ''y'' ''z'' 40)
   \<and> store_inv (delete_acronym_by_id example_store 2)
   \<and> length (rows (delete_acronym_by_id example_store 2)) + 1 = length (rows example_store)
   \<and> handle_edit_view example_store (encode_token 2 ''X'') ''C''
       = Inr (sql_update example_store ''C'' (str_int 2))
   \<and> store_inv (sql_update example_store ''C'' (str_int 2))
   \<and> map row_term (rows (sql_update example_store ''C'' (str_int 2))) = [''X'', ''X'', ''ATO'']"
proof -
  have m: "2 \<in> row_id ` set (rows example_store)" by (simp add: example_store_def)
  have c: "strip ''C'' = ''C''" by (simp add: strip_def is_space_def)
  have h: "handle_edit_view example_store (encode_token 2 ''X'') ''C''
       = Inr (sql_update example_store ''C'' (str_int 2))"
    by (simp add: handle_edit_view_def split_token_encode c)
  note w = store_invariant[OF example_store_inv, of "''y''" "''z''" 40 2 "encode_token 2 ''X''" "''C''"]
  from w have 1: "store_inv (add_acronym example_store ''y'' ''z'' 40)"
    and 2: "store_inv (delete_acronym_by_id example_store 2)" by blast+
  from w m have 3: "length (rows (delete_acronym_by_id example_store 2)) + 1 = length (rows example_store)"
    by blast
  from w h have 4: "store_inv (sql_update example_store ''C'' (str_int 2))"
    and 5: "map row_term (rows (sql_update example_store ''C'' (str_int 2))) = map row_term (rows example_store)"
    by blast+
  have 6: "map row_term (rows example_store) = [''X'', ''X'', ''ATO'']" by (simp add: example_store_def)
  show ?thesis
    by (intro conjI) (rule example_store_inv 1 2 3 h 4 5[unfolded 6])+
qed

section \<open>Tokens\<close>

text \<open>
  C10. A token is the decimal id, a bar and the term. Splitting it at the first bar gives
  back the decimal id and the whole term, also when the term has bars of its own, since
  the decimal form of an integer has no bar; \<open>int\<close> then gives back the id, so the
  confirm handler deletes by the id the token was made from.
\<close>

theorem token_roundtrip:
  "split_token (encode_token i tm) = Inr (str_int i, tm)
   \<and> CHR ''|'' \<notin> set (str_int i)
   \<and> py_int (str_int i) = Inr i
   \<and> handle_delete_confirm s (encode_token i tm)
       = Inr (delete_acronym_by_id s i, Replace (''Deleted one definition for *'' @ upper tm @ ''*.''))"
  by (simp add: split_token_encode str_int_no_bar py_int_str_int handle_delete_confirm_def)

theorem token_roundtrip_witness:
  "split_token ''12|A|B'' = Inr (''12'', ''A|B'') \<and> py_int ''12'' = Inr 12
   \<and> encode_token 12 ''A|B'' = ''12|A|B''"
proof -
  have d: "str_int 12 = ''12''" by code_simp
  then have e: "encode_token 12 ''A|B'' = ''12|A|B''" by (simp add: encode_token_def)
  from token_roundtrip[of 12 "''A|B''"] d e show ?thesis by simp
qed

end
